theory Spec2Isabelle
  imports Complex_Main "HOL-Library.Multiset"
begin

section \<open>Arrays, errors and the array backend\<close>

text \<open>
  The functionals of \<^verbatim>\<open>pycsou/operator/func/norm.py\<close> and
  \<^verbatim>\<open>pycsou/operator/func/indicator.py\<close> act on the innermost axis of an array; the
  \<^verbatim>\<open>vectorize\<close> decorator runs them once per row of the leading axes. A row is a list of
  reals here. Arithmetic is exact real arithmetic: rounding of the floating-point backend is
  outside this development.
\<close>

type_synonym ndarray1 = "real list"

text \<open>
  Exceptions of the source and of the libraries it calls.
  \<^item> \<open>ValueError msg\<close>: a \<^verbatim>\<open>raise ValueError(msg)\<close> written in the source;
  \<^item> \<open>BrentqSignError\<close>: the \<^verbatim>\<open>ValueError\<close> of \<^verbatim>\<open>scipy.optimize.brentq\<close> when the function
    has the same sign at both ends of the bracket;
  \<^item> \<open>EmptyReduction\<close>: the \<^verbatim>\<open>ValueError\<close> of \<^verbatim>\<open>xp.max\<close> on an array of size zero.
\<close>

datatype error = ValueError string | BrentqSignError | EmptyReduction

text \<open>\<^verbatim>\<open>xp.max(a)\<close>: the largest entry; raises on an empty array.\<close>

fun xp_max :: "real list \<Rightarrow> error + real" where
  "xp_max [] = Inl EmptyReduction"
| "xp_max (v # vs) = Inr (fold max vs v)"

text \<open>\<^verbatim>\<open>xp.max\<close> of an integer index array, as \<^verbatim>\<open>xp.nonzero(...)[0]\<close> returns it.\<close>

fun xp_max_index :: "nat list \<Rightarrow> error + nat" where
  "xp_max_index [] = Inl EmptyReduction"
| "xp_max_index (k # ks) = Inr (fold max ks k)"

text \<open>\<^verbatim>\<open>xp.cumsum(z)\<close>: running sums, entry \<open>k\<close> is \<open>z\<^sub>0 + ... + z\<^sub>k\<close>.\<close>

fun cumsum_from :: "real \<Rightarrow> real list \<Rightarrow> real list" where
  "cumsum_from acc [] = []"
| "cumsum_from acc (v # vs) = (acc + v) # cumsum_from (acc + v) vs"

definition cumsum :: "real list \<Rightarrow> real list" where
  "cumsum vs = cumsum_from 0 vs"

text \<open>\<^verbatim>\<open>xp.linalg.norm(a)\<close> of a one-dimensional array: the Euclidean norm.\<close>

definition linalg_norm :: "real list \<Rightarrow> real" where
  "linalg_norm arr = sqrt (sum_list (map (\<lambda>v. v\<^sup>2) arr))"

text \<open>
  Modelled from the spec: \<^verbatim>\<open>pycsou.math.linalg.norm\<close> is not among the sources. For
  \<^verbatim>\<open>ord=1\<close> it is the \<open>\<ell>\<^sub>1\<close> norm of the spec's table, the sum of the absolute values of
  the entries, accumulated from the left.
\<close>

fun pylinalg_norm1_from :: "real \<Rightarrow> real list \<Rightarrow> real" where
  "pylinalg_norm1_from acc [] = acc"
| "pylinalg_norm1_from acc (v # vs) = pylinalg_norm1_from (acc + \<bar>v\<bar>) vs"

definition pylinalg_norm1 :: "real list \<Rightarrow> real" where
  "pylinalg_norm1 arr = pylinalg_norm1_from 0 arr"

text \<open>
  \<^verbatim>\<open>scipy.optimize.brentq(f, a, b)\<close>. The library raises when \<open>f a\<close> and \<open>f b\<close> have the
  same strict sign, returns an end of the bracket where \<open>f\<close> vanishes, and otherwise
  iterates to a root inside the bracket. The iteration is the library's: the root it
  returns is the parameter \<open>root_of\<close>.
\<close>

definition brentq ::
  "((real \<Rightarrow> real) \<Rightarrow> real \<Rightarrow> real \<Rightarrow> real) \<Rightarrow> (real \<Rightarrow> real) \<Rightarrow> real \<Rightarrow> real \<Rightarrow> error + real"
where
  "brentq root_of f a b =
     (if f a * f b > 0 then Inl BrentqSignError
      else if f a = 0 then Inr a
      else if f b = 0 then Inr b
      else Inr (root_of f a b))"

text \<open>
  The two lines \<^verbatim>\<open>y = xp.fmax(0, xp.fabs(arr) - t); y *= xp.sign(arr)\<close> that end
  \<^verbatim>\<open>L1Norm.prox\<close>, \<^verbatim>\<open>SquaredL1Norm._prox_sort\<close> and \<^verbatim>\<open>L1Ball.prox\<close>.
\<close>

definition fmax_fabs_sign :: "real \<Rightarrow> ndarray1 \<Rightarrow> ndarray1" where
  "fmax_fabs_sign t arr = map (\<lambda>v. max 0 (\<bar>v\<bar> - t) * sgn v) arr"

text \<open>
  The two lines \<^verbatim>\<open>y = xp.fmin(xp.fabs(arr), m); y *= xp.sign(arr)\<close> that end
  \<^verbatim>\<open>LInftyNorm.prox\<close> and \<^verbatim>\<open>LInfinityBall.prox\<close>.
\<close>

definition fmin_fabs_sign :: "real \<Rightarrow> ndarray1 \<Rightarrow> ndarray1" where
  "fmin_fabs_sign m arr = map (\<lambda>v. min \<bar>v\<bar> m * sgn v) arr"

section \<open>Norm functionals (norm.py)\<close>

text \<open>\<^verbatim>\<open>L1Norm.apply\<close>: \<^verbatim>\<open>keepdims=True\<close> leaves an array with one entry.\<close>

definition L1Norm_apply :: "ndarray1 \<Rightarrow> ndarray1" where
  "L1Norm_apply arr = [pylinalg_norm1 arr]"

definition L1Norm_prox :: "ndarray1 \<Rightarrow> real \<Rightarrow> ndarray1" where
  "L1Norm_prox arr tau = fmax_fabs_sign tau arr"

text \<open>
  \<^verbatim>\<open>SquaredL2Norm\<close>: the only attribute that \<^verbatim>\<open>_hessian\<close> reads is \<^verbatim>\<open>dim\<close>, which is
  \<^verbatim>\<open>None\<close> for a domain-agnostic functional. \<open>cls\<close> is the text that
  \<^verbatim>\<open>{self.__class__}\<close> prints in the error message.
\<close>

record SquaredL2Norm =
  dim :: "nat option"
  cls :: string

text \<open>
  Modelled from the spec: \<^verbatim>\<open>pycsou.operator.linop.IdentityOp\<close> and \<^verbatim>\<open>squeeze\<close> are not
  among the sources. An operator is its shape and its \<^verbatim>\<open>apply\<close>; the identity operator
  of dimension \<open>d\<close> has shape \<open>(d, d)\<close> and returns its input; \<^verbatim>\<open>squeeze\<close> changes neither.
\<close>

record OpT =
  shape :: "nat \<times> nat"
  op_apply :: "ndarray1 \<Rightarrow> ndarray1"

definition IdentityOp :: "nat \<Rightarrow> OpT" where
  "IdentityOp d = \<lparr>shape = (d, d), op_apply = (\<lambda>arr. arr)\<rparr>"

definition squeeze :: "OpT \<Rightarrow> OpT" where
  "squeeze op = op"

definition hessian_msg :: "string \<Rightarrow> string" where
  "hessian_msg c =
     ''hessian: domain-agnostic functionals unsupported.'' @ [CHR 0x0A] @
     ''Explicitly set `dim` in '' @ c @ ''.__init__().''"

definition SquaredL2Norm_hessian :: "SquaredL2Norm \<Rightarrow> error + OpT" where
  "SquaredL2Norm_hessian self =
     (case dim self of
        None \<Rightarrow> Inl (ValueError (hessian_msg (cls self)))
      | Some d \<Rightarrow> Inr (squeeze (IdentityOp d)))"

text \<open>
  \<^verbatim>\<open>SquaredL1Norm._prox_root\<close>. \<^verbatim>\<open>xp.max\<close> is reached only when the norm is positive, so
  on a non-empty array.
\<close>

definition prox_root_func :: "ndarray1 \<Rightarrow> real \<Rightarrow> real \<Rightarrow> real" where
  "prox_root_func arr tau mu =
     sum_list (map (\<lambda>v. max (\<bar>v\<bar> * sqrt (tau / mu) - 2 * tau) 0) arr) - 1"

definition SquaredL1Norm_prox_root ::
  "((real \<Rightarrow> real) \<Rightarrow> real \<Rightarrow> real \<Rightarrow> real) \<Rightarrow> ndarray1 \<Rightarrow> real \<Rightarrow> error + ndarray1"
where
  "SquaredL1Norm_prox_root root_of arr tau =
     (if linalg_norm arr > 0 then
        (case xp_max (map (\<lambda>v. \<bar>v\<bar>\<^sup>2) arr) of
           Inl e \<Rightarrow> Inl e
         | Inr m \<Rightarrow>
             (let mu_max = m / (4 * tau);
                  mu_min = 1 / 10 ^ 12
              in case brentq root_of (prox_root_func arr tau) mu_min mu_max of
                   Inl e \<Rightarrow> Inl e
                 | Inr mu_star \<Rightarrow>
                     Inr (map (\<lambda>v. let lambda = max (\<bar>v\<bar> * sqrt (tau / mu_star) - 2 * tau) 0
                                    in lambda * v / (lambda + 2 * tau)) arr)))
      else Inr arr)"

text \<open>
  The body of \<^verbatim>\<open>SquaredL1Norm._prox_sort\<close>, which runs on in-memory arrays (for a lazily
  evaluated array the \<^verbatim>\<open>redirect\<close> decorator runs \<^verbatim>\<open>_prox_root\<close> instead).
  \<open>sorted_desc\<close> is \<^verbatim>\<open>xp.sort(xp.abs(arr))[::-1]\<close>, \<open>test_array\<close> the array of the same name,
  \<open>nonzero_gt0\<close> is \<^verbatim>\<open>xp.nonzero(test_array.reshape(-1) > 0)[0]\<close>.
\<close>

definition sorted_desc :: "ndarray1 \<Rightarrow> ndarray1" where
  "sorted_desc arr = rev (sort (map abs arr))"

definition test_array :: "real list \<Rightarrow> real \<Rightarrow> real list" where
  "test_array z tau =
     map (\<lambda>k. z ! k - (2 * tau / (1 + (real k + 1) * 2 * tau)) * cumsum z ! k) [0..<length z]"

definition nonzero_gt0 :: "real list \<Rightarrow> nat list" where
  "nonzero_gt0 t = filter (\<lambda>k. t ! k > 0) [0..<length t]"

definition SquaredL1Norm_prox_sort :: "ndarray1 \<Rightarrow> real \<Rightarrow> error + ndarray1" where
  "SquaredL1Norm_prox_sort arr tau =
     (let z = sorted_desc arr;
          cumsum_z = cumsum z
      in case xp_max_index (nonzero_gt0 (test_array z tau)) of
           Inl e \<Rightarrow> Inl e
         | Inr max_nzi \<Rightarrow>
             (let threshold = (2 * tau / (1 + (real max_nzi + 1) * 2 * tau)) * cumsum_z ! max_nzi
              in Inr (fmax_fabs_sign threshold arr)))"

text \<open>\<^verbatim>\<open>LInftyNorm.apply\<close> on one row, and \<^verbatim>\<open>LInftyNorm.prox\<close>.\<close>

definition LInftyNorm_apply :: "ndarray1 \<Rightarrow> error + real" where
  "LInftyNorm_apply arr = xp_max (map abs arr)"

definition LInftyNorm_prox ::
  "((real \<Rightarrow> real) \<Rightarrow> real \<Rightarrow> real \<Rightarrow> real) \<Rightarrow> ndarray1 \<Rightarrow> real \<Rightarrow> error + ndarray1"
where
  "LInftyNorm_prox root_of arr tau =
     (case LInftyNorm_apply arr of
        Inl e \<Rightarrow> Inl e
      | Inr mu_max \<Rightarrow>
          (case brentq root_of (\<lambda>mu. sum_list (map (\<lambda>v. max (\<bar>v\<bar> - mu) 0) arr) - tau) 0 mu_max of
             Inl e \<Rightarrow> Inl e
           | Inr mu_star \<Rightarrow> Inr (fmin_fabs_sign mu_star arr)))"

section \<open>Ball indicators (indicator.py)\<close>

definition L1Ball_prox ::
  "((real \<Rightarrow> real) \<Rightarrow> real \<Rightarrow> real \<Rightarrow> real) \<Rightarrow> real \<Rightarrow> ndarray1 \<Rightarrow> real \<Rightarrow> error + ndarray1"
where
  "L1Ball_prox root_of radius arr tau =
     (if pylinalg_norm1 arr \<le> radius then Inr arr
      else
        (case xp_max (map abs arr) of
           Inl e \<Rightarrow> Inl e
         | Inr mu_max \<Rightarrow>
             (case brentq root_of (\<lambda>mu. sum_list (map (\<lambda>v. max (\<bar>v\<bar> - mu) 0) arr) - radius) 0 mu_max of
                Inl e \<Rightarrow> Inl e
              | Inr mu_star \<Rightarrow> Inr (fmax_fabs_sign mu_star arr))))"

text \<open>
  \<^verbatim>\<open>L2Ball.prox\<close> raises nowhere: the floating-point division by a zero norm, which only a
  negative radius reaches, gives \<^verbatim>\<open>nan\<close> entries there, where real division gives \<open>0\<close>.
\<close>

definition L2Ball_prox :: "real \<Rightarrow> ndarray1 \<Rightarrow> real \<Rightarrow> ndarray1" where
  "L2Ball_prox radius arr tau =
     (let arr_norm = linalg_norm arr
      in if arr_norm \<le> radius then arr
         else map (\<lambda>v. radius * v / arr_norm) arr)"

definition LInfinityBall_prox :: "real \<Rightarrow> ndarray1 \<Rightarrow> real \<Rightarrow> error + ndarray1" where
  "LInfinityBall_prox radius arr tau =
     (case xp_max (map abs arr) of
        Inl e \<Rightarrow> Inl e
      | Inr m \<Rightarrow> if m \<le> radius then Inr arr else Inr (fmin_fabs_sign radius arr))"

section \<open>Conjugate gradient (cg.py)\<close>

text \<open>
  The solver state \<^verbatim>\<open>self._mstate\<close> maps the names \<^verbatim>\<open>b\<close>, \<^verbatim>\<open>x\<close>, \<^verbatim>\<open>residual\<close> and
  \<^verbatim>\<open>conjugate_dir\<close> to arrays that \<^verbatim>\<open>m_step\<close> updates in place. Arrays are objects: the
  state holds their addresses and a store holds their contents, so that two names of one
  object see each other's updates. An array has shape \<open>(B, N)\<close>, a list of \<open>B\<close> rows, one
  row per problem of the batch; reductions along \<^verbatim>\<open>axis=-1\<close> with \<^verbatim>\<open>keepdims=True\<close> give
  one scalar per row. The arrays of one state have one common shape; broadcasting between
  arrays of different shapes is outside the model.
\<close>

type_synonym ndarray = "real list list"
type_synonym addr = nat
type_synonym store = "addr \<Rightarrow> ndarray"

record mstate =
  mst_b :: addr
  mst_x :: addr
  mst_residual :: addr
  mst_conjugate_dir :: addr

record heap =
  cells :: store
  next_free :: addr

text \<open>A new array object: \<^verbatim>\<open>xp.zeros_like\<close> and \<^verbatim>\<open>copy\<close> return one.\<close>

definition alloc :: "heap \<Rightarrow> ndarray \<Rightarrow> addr \<times> heap" where
  "alloc h a = (next_free h, \<lparr>cells = (cells h)(next_free h := a), next_free = Suc (next_free h)\<rparr>)"

definition zeros_like :: "ndarray \<Rightarrow> ndarray" where
  "zeros_like a = map (map (\<lambda>v. 0)) a"

text \<open>Elementwise arithmetic on arrays of one shape.\<close>

definition add_arr :: "ndarray \<Rightarrow> ndarray \<Rightarrow> ndarray" where
  "add_arr u v = map2 (map2 (+)) u v"

definition sub_arr :: "ndarray \<Rightarrow> ndarray \<Rightarrow> ndarray" where
  "sub_arr u v = map2 (map2 (-)) u v"

text \<open>\<^verbatim>\<open>c * a\<close> and \<^verbatim>\<open>a * c\<close> for \<open>c\<close> of shape \<open>(B, 1)\<close>: row \<open>i\<close> of \<open>a\<close> times \<open>c\<^sub>i\<close>.\<close>

definition scale_rows :: "real list \<Rightarrow> ndarray \<Rightarrow> ndarray" where
  "scale_rows c a = map2 (\<lambda>s row. map (\<lambda>v. s * v) row) c a"

definition mul_rows :: "ndarray \<Rightarrow> real list \<Rightarrow> ndarray" where
  "mul_rows a c = map2 (\<lambda>row s. map (\<lambda>v. v * s) row) a c"

text \<open>\<^verbatim>\<open>(u * v).sum(axis=-1, keepdims=True)\<close>.\<close>

definition row_dot :: "ndarray \<Rightarrow> ndarray \<Rightarrow> real list" where
  "row_dot u v = map2 (\<lambda>s t. sum_list (map2 (*) s t)) u v"

text \<open>\<^verbatim>\<open>xp.linalg.norm(a, ord=2, axis=-1, keepdims=True) ** 2\<close>.\<close>

definition row_norm_sq :: "ndarray \<Rightarrow> real list" where
  "row_norm_sq a = map (\<lambda>row. (linalg_norm row)\<^sup>2) a"

text \<open>
  \<^verbatim>\<open>self._A.apply\<close> acts on the last axis: \<open>A\<close> is its action on one row. Its result is
  read (lines 117 and 119) before the first write to \<^verbatim>\<open>p\<close> (line 121), so an operator
  that returns its argument itself, as the identity does, gives the same values as one
  that returns a new array; \<open>Ap\<close> is a value.
\<close>

definition A_apply :: "(ndarray1 \<Rightarrow> ndarray1) \<Rightarrow> ndarray \<Rightarrow> ndarray" where
  "A_apply A a = map A a"

text \<open>
  The assignment \<^verbatim>\<open>mst["residual"][:] = b - self._A.apply(mst["x"])\<close>. Between arrays of
  one shape the difference is elementwise and already has the shape of \<^verbatim>\<open>b\<close>. Between
  arrays of different shapes the array library broadcasts the difference and then the
  assignment into the shape of \<^verbatim>\<open>b\<close>, or raises; what it does there is the parameter
  \<open>bcast\<close>.
\<close>

definition residual_assign ::
  "(ndarray \<Rightarrow> ndarray \<Rightarrow> error + ndarray) \<Rightarrow> ndarray \<Rightarrow> ndarray \<Rightarrow> error + ndarray"
where
  "residual_assign bcast bv ax =
     (if map length bv = map length ax then Inr (sub_arr bv ax) else bcast bv ax)"

text \<open>
  \<^verbatim>\<open>CG.m_init\<close>: \<open>b\<close> and \<open>x0\<close> are the addresses of the caller's arrays.
\<close>

definition m_init ::
  "(ndarray \<Rightarrow> ndarray \<Rightarrow> error + ndarray) \<Rightarrow> (ndarray1 \<Rightarrow> ndarray1) \<Rightarrow>
   heap \<Rightarrow> addr \<Rightarrow> addr option \<Rightarrow> error + heap \<times> mstate"
where
  "m_init bcast A h0 b x0 =
     (let (xa, h1) = (case x0 of
                        None \<Rightarrow> alloc h0 (zeros_like (cells h0 b))
                      | Some a \<Rightarrow> (a, h0));
          (ra, h2) = alloc h1 (zeros_like (cells h1 b))
      in case residual_assign bcast (cells h2 b) (A_apply A (cells h2 xa)) of
           Inl e \<Rightarrow> Inl e
         | Inr res \<Rightarrow>
             (let h3 = h2\<lparr>cells := (cells h2)(ra := res)\<rparr>;
                  (pa, h4) = alloc h3 (cells h3 ra)
              in Inr (h4, \<lparr>mst_b = b, mst_x = xa, mst_residual = ra,
                          mst_conjugate_dir = pa\<rparr>)))"

text \<open>
  \<^verbatim>\<open>CG.m_step\<close>, statement by statement. Each right-hand side is evaluated to a temporary
  before the in-place operator writes its target, and every read is of the store as the
  statements before it left it.
\<close>

definition m_step :: "(ndarray1 \<Rightarrow> ndarray1) \<Rightarrow> store \<Rightarrow> mstate \<Rightarrow> store \<times> mstate" where
  "m_step A s0 mst =
     (let xa = mst_x mst; ra = mst_residual mst; pa = mst_conjugate_dir mst;
          Ap = A_apply A (s0 pa);
          rr = row_norm_sq (s0 ra);
          alpha = map2 (/) rr (row_dot (s0 pa) Ap);
          s1 = s0(xa := add_arr (s0 xa) (scale_rows alpha (s0 pa)));
          s2 = s1(ra := sub_arr (s1 ra) (scale_rows alpha Ap));
          beta = map2 (/) (row_norm_sq (s2 ra)) rr;
          s3 = s2(pa := mul_rows (s2 pa) beta);
          s4 = s3(pa := add_arr (s3 pa) (s3 ra))
      in (s4, mst\<lparr>mst_x := xa, mst_residual := ra, mst_conjugate_dir := pa\<rparr>))"

text \<open>
  The recurrence in the words of the specification, for one problem:
  \<open>Ap = A\<cdot>p\<close>; \<open>alpha = \<parallel>r\<parallel>\<^sup>2 / (p\<^sup>T\<cdot>Ap)\<close>; \<open>x_new = x + alpha\<cdot>p\<close>; \<open>r_new = r - alpha\<cdot>Ap\<close>;
  \<open>beta = \<parallel>r_new\<parallel>\<^sup>2 / \<parallel>r\<parallel>\<^sup>2\<close>; \<open>p_new = r_new + beta\<cdot>p\<close>.
\<close>

definition cg_recurrence ::
  "(ndarray1 \<Rightarrow> ndarray1) \<Rightarrow> ndarray1 \<Rightarrow> ndarray1 \<Rightarrow> ndarray1 \<Rightarrow> ndarray1 \<times> ndarray1 \<times> ndarray1"
where
  "cg_recurrence A xv rv pv =
     (let Ap = A pv;
          alpha = (linalg_norm rv)\<^sup>2 / sum_list (map2 (*) pv Ap);
          x_new = map2 (\<lambda>u v. u + alpha * v) xv pv;
          r_new = map2 (\<lambda>u v. u - alpha * v) rv Ap;
          beta = (linalg_norm r_new)\<^sup>2 / (linalg_norm rv)\<^sup>2;
          p_new = map2 (\<lambda>u v. u + beta * v) r_new pv
      in (x_new, r_new, p_new))"

text \<open>
  \<^verbatim>\<open>explicit_residual\<close>, the function that \<^verbatim>\<open>default_stop_crit\<close> hands to the criterion:
  a copy of \<^verbatim>\<open>mst["b"]\<close> minus \<^verbatim>\<open>A.apply(x)\<close>, for the array \<open>xv\<close> it is called on.
\<close>

definition explicit_residual :: "(ndarray1 \<Rightarrow> ndarray1) \<Rightarrow> store \<Rightarrow> mstate \<Rightarrow> ndarray \<Rightarrow> ndarray" where
  "explicit_residual A s mst xv = sub_arr (s (mst_b mst)) (A_apply A xv)"

text \<open>
  Modelled from the spec: \<^verbatim>\<open>pycsou.opt.stop.AbsError\<close> is not among the sources. The
  criterion reads the variable \<open>var\<close> of the state, applies \<open>f\<close> to it, and declares
  convergence when the norm of the result, taken along the last axis, is below the
  absolute tolerance \<open>eps\<close>: in every row when \<open>satisfy_all\<close> holds, in some row otherwise.
\<close>

record AbsError =
  crit_eps :: real
  crit_var :: "mstate \<Rightarrow> addr"
  crit_f :: "store \<Rightarrow> mstate \<Rightarrow> ndarray \<Rightarrow> ndarray"
  crit_norm :: "ndarray1 \<Rightarrow> real"
  crit_satisfy_all :: bool

definition AbsError_stop :: "AbsError \<Rightarrow> store \<Rightarrow> mstate \<Rightarrow> bool" where
  "AbsError_stop c s mst =
     (let v = crit_f c s mst (s (crit_var c mst));
          below = map (\<lambda>row. crit_norm c row < crit_eps c) v
      in if crit_satisfy_all c then list_all (\<lambda>t. t) below else list_ex (\<lambda>t. t) below)"

definition default_stop_crit :: "(ndarray1 \<Rightarrow> ndarray1) \<Rightarrow> AbsError" where
  "default_stop_crit A =
     \<lparr>crit_eps = 1 / 10 ^ 4, crit_var = mst_x, crit_f = explicit_residual A,
      crit_norm = linalg_norm, crit_satisfy_all = True\<rparr>"

section \<open>The sort-based prox in the words of the specification\<close>

text \<open>
  For \<open>z\<close> the absolute values in descending order: the threshold derived from the
  cumulative sum at index \<open>k\<close>, \<open>(2\<tau> / (1 + (k+1)\<cdot>2\<tau>))\<cdot>(z\<^sub>0 + ... + z\<^sub>k)\<close>, and the threshold-test
  quantity \<open>z\<^sub>k\<close> minus that threshold.
\<close>

definition spec_threshold :: "real list \<Rightarrow> real \<Rightarrow> nat \<Rightarrow> real" where
  "spec_threshold z tau k = 2 * tau / (1 + (real k + 1) * 2 * tau) * sum_list (take (Suc k) z)"

definition spec_test :: "real list \<Rightarrow> real \<Rightarrow> nat \<Rightarrow> real" where
  "spec_test z tau k = z ! k - spec_threshold z tau k"

section \<open>Properties of the backend operations\<close>

lemma pylinalg_norm1_from_sum: "pylinalg_norm1_from acc xs = acc + sum_list (map abs xs)"
  by (induction xs arbitrary: acc) auto

lemma pylinalg_norm1_sum: "pylinalg_norm1 xs = sum_list (map abs xs)"
  by (simp add: pylinalg_norm1_def pylinalg_norm1_from_sum)

lemma xp_max_Max: "xp_max xs = Inr (Max (set xs))" if "xs \<noteq> []"
proof (cases xs)
  case Nil
  then show ?thesis using that by simp
next
  case (Cons v vs)
  then show ?thesis using Max.set_eq_fold [of v vs] by simp
qed

lemma sqrt_quarter: "sqrt (1 / 4) = 1 / 2"
  by (rule real_sqrt_unique) (simp_all add: power2_eq_square)

lemma upt5: "[0..<5] = [0, 1, 2, 3, 4]"
  by (simp add: upt_rec)

lemma sum_list_sq_nonneg: "0 \<le> sum_list (map (\<lambda>v. v\<^sup>2) (arr :: real list))"
  by (induction arr) auto

lemma sum_list_sq_scale:
  "sum_list (map (\<lambda>v. v\<^sup>2) (map (\<lambda>v. c * v / n) arr)) =
   (c / n)\<^sup>2 * sum_list (map (\<lambda>v. v\<^sup>2) (arr :: real list))"
  by (induction arr) (auto simp: power_mult_distrib power_divide algebra_simps)

lemma linalg_norm_rescale:
  assumes "0 < linalg_norm arr"
  shows "linalg_norm (map (\<lambda>v. c * v / linalg_norm arr) arr) = \<bar>c\<bar>"
proof -
  let ?n = "linalg_norm arr"
  have "linalg_norm (map (\<lambda>v. c * v / ?n) arr) =
        sqrt ((c / ?n)\<^sup>2 * sum_list (map (\<lambda>v. v\<^sup>2) arr))"
    by (simp only: linalg_norm_def sum_list_sq_scale)
  also have "\<dots> = \<bar>c / ?n\<bar> * ?n"
    by (simp add: real_sqrt_mult linalg_norm_def)
  also have "\<dots> = \<bar>c\<bar>"
    using assms by simp
  finally show ?thesis .
qed

lemma linalg_norm_single1: "linalg_norm [1] = 1"
  by (simp add: linalg_norm_def)

lemma linalg_norm_3_4: "linalg_norm [3, 4] = 5"
  unfolding linalg_norm_def by (rule real_sqrt_unique) (simp_all add: power2_eq_square)

section \<open>The \<open>\<ell>\<^sub>1\<close> norm\<close>

text \<open>
  Claim C4. For every real vector \<open>x\<close> and every \<open>tau\<close>, \<^verbatim>\<open>L1Norm.apply(x)\<close> is the sum of
  the absolute values of the entries and \<^verbatim>\<open>L1Norm.prox(x, tau)\<close> is the elementwise
  soft-threshold \<open>sign(x)\<cdot>max(0, |x| - tau)\<close>; \<^verbatim>\<open>apply([0,0,0,0,0])\<close> is \<open>0\<close>,
  \<^verbatim>\<open>apply([-3,-2,-1,0,1])\<close> is \<open>7\<close> and \<^verbatim>\<open>prox([-3,-2,-1,0,1], tau=1)\<close> is
  \<open>[-2,-1,0,0,0]\<close>.
\<close>

theorem L1Norm_apply_prox:
  "L1Norm_apply arr = [sum_list (map abs arr)] \<and>
   L1Norm_prox arr tau = map (\<lambda>v. sgn v * max 0 (\<bar>v\<bar> - tau)) arr \<and>
   L1Norm_apply [0, 0, 0, 0, 0] = [0] \<and>
   L1Norm_apply [-3, -2, -1, 0, 1] = [7] \<and>
   L1Norm_prox [-3, -2, -1, 0, 1] 1 = [-2, -1, 0, 0, 0]"
  by (simp add: L1Norm_apply_def L1Norm_prox_def fmax_fabs_sign_def pylinalg_norm1_sum mult.commute)

section \<open>Ball indicators\<close>

text \<open>
  Claim C5. Ball-projection idempotence: for the \<open>\<ell>\<^sub>1\<close>-ball, the \<open>\<ell>\<^sub>2\<close>-ball and the
  \<open>\<ell>\<^sub>\<infinity>\<close>-ball of radius \<open>r\<close> and every \<open>tau\<close>, an input that lies in the ball
  (\<open>\<Sum>|x\<^sub>i| \<le> r\<close>, \<open>\<parallel>x\<parallel>\<^sub>2 \<le> r\<close>, \<open>max|x\<^sub>i| \<le> r\<close> respectively) is returned unchanged by
  \<^verbatim>\<open>prox\<close>. The largest absolute entry exists for a vector with at least one entry.
\<close>

theorem ball_prox_idempotent:
  "(sum_list (map abs arr) \<le> radius \<longrightarrow> L1Ball_prox root_of radius arr tau = Inr arr) \<and>
   (sqrt (sum_list (map (\<lambda>v. v\<^sup>2) arr)) \<le> radius \<longrightarrow> L2Ball_prox radius arr tau = arr) \<and>
   (arr \<noteq> [] \<and> Max (set (map abs arr)) \<le> radius \<longrightarrow> LInfinityBall_prox radius arr tau = Inr arr)"
  by (simp add: L1Ball_prox_def L2Ball_prox_def LInfinityBall_prox_def pylinalg_norm1_sum
      linalg_norm_def xp_max_Max)

theorem ball_prox_idempotent_witness:
  "sum_list (map abs [3 / 10, - 2 / 5 :: real]) \<le> 1 \<and>
   sqrt (sum_list (map (\<lambda>v. v\<^sup>2) [3 / 10, - 2 / 5 :: real])) \<le> 1 \<and>
   [3 / 10, - 2 / 5 :: real] \<noteq> [] \<and> Max (set (map abs [3 / 10, - 2 / 5 :: real])) \<le> 1 \<and>
   L1Ball_prox (\<lambda>f a b. a) 1 [3 / 10, - 2 / 5] 7 = Inr [3 / 10, - 2 / 5] \<and>
   L2Ball_prox 1 [3 / 10, - 2 / 5] 7 = [3 / 10, - 2 / 5] \<and>
   LInfinityBall_prox 1 [3 / 10, - 2 / 5] 7 = Inr [3 / 10, - 2 / 5]"
proof -
  have h1: "sum_list (map abs [3 / 10, - 2 / 5 :: real]) \<le> 1" by simp
  have "sum_list (map (\<lambda>v. v\<^sup>2) [3 / 10, - 2 / 5 :: real]) = 1 / 4"
    by (simp add: power2_eq_square)
  then have h2: "sqrt (sum_list (map (\<lambda>v. v\<^sup>2) [3 / 10, - 2 / 5 :: real])) \<le> 1"
    by (simp only: sqrt_quarter)
  have h3: "[3 / 10, - 2 / 5 :: real] \<noteq> [] \<and> Max (set (map abs [3 / 10, - 2 / 5 :: real])) \<le> 1"
    by simp
  show ?thesis
    using ball_prox_idempotent [of "[3 / 10, - 2 / 5]" 1 "\<lambda>f a b. a" 7] h1 h2 h3 by blast
qed

text \<open>
  Claim C10. For each of \<^verbatim>\<open>L1Ball\<close>, \<^verbatim>\<open>L2Ball\<close> and \<^verbatim>\<open>LInfinityBall\<close> the result of
  \<^verbatim>\<open>prox\<close> does not depend on the scale parameter: for every input and all \<open>tau1\<close>,
  \<open>tau2\<close>, \<^verbatim>\<open>prox(x, tau1)\<close> and \<^verbatim>\<open>prox(x, tau2)\<close> are the same, errors included.
\<close>

theorem ball_prox_tau_independent:
  "L1Ball_prox root_of radius arr tau1 = L1Ball_prox root_of radius arr tau2 \<and>
   L2Ball_prox radius arr tau1 = L2Ball_prox radius arr tau2 \<and>
   LInfinityBall_prox radius arr tau1 = LInfinityBall_prox radius arr tau2"
  by (simp add: L1Ball_prox_def L2Ball_prox_def LInfinityBall_prox_def)

section \<open>The Hessian of the squared \<open>\<ell>\<^sub>2\<close> norm\<close>

text \<open>
  Claim C9. Requesting the Hessian of \<^verbatim>\<open>SquaredL2Norm\<close> raises exactly when the
  functional was constructed domain-agnostic (\<^verbatim>\<open>dim is None\<close>); the error, a
  \<^verbatim>\<open>ValueError\<close> in the source, carries a message that names the missing precondition,
  setting \<^verbatim>\<open>dim\<close>. When \<^verbatim>\<open>dim\<close> is set, the call succeeds and returns the identity
  operator of that dimension.
\<close>

theorem hessian_raises_iff_agnostic:
  "(isl (SquaredL2Norm_hessian self) \<longleftrightarrow> dim self = None) \<and>
   (dim self = None \<longrightarrow>
      SquaredL2Norm_hessian self =
        Inl (ValueError (''hessian: domain-agnostic functionals unsupported.'' @ [CHR 0x0A] @
                         ''Explicitly set `dim` in '' @ cls self @ ''.__init__().''))) \<and>
   (\<forall>d. dim self = Some d \<longrightarrow>
      SquaredL2Norm_hessian self = Inr (IdentityOp d) \<and>
      shape (IdentityOp d) = (d, d) \<and> (\<forall>arr. op_apply (IdentityOp d) arr = arr))"
  by (auto simp: SquaredL2Norm_hessian_def IdentityOp_def squeeze_def hessian_msg_def
      split: option.splits)

theorem hessian_raises_iff_agnostic_witness:
  "dim \<lparr>dim = None, cls = ''SquaredL2Norm''\<rparr> = None \<and>
   isl (SquaredL2Norm_hessian \<lparr>dim = None, cls = ''SquaredL2Norm''\<rparr>) \<and>
   dim \<lparr>dim = Some 3, cls = ''SquaredL2Norm''\<rparr> = Some 3 \<and>
   SquaredL2Norm_hessian \<lparr>dim = Some 3, cls = ''SquaredL2Norm''\<rparr> = Inr (IdentityOp 3) \<and>
   op_apply (IdentityOp 3) [1, 2, 3] = [1, 2, 3]"
  using hessian_raises_iff_agnostic [of "\<lparr>dim = None, cls = ''SquaredL2Norm''\<rparr>"]
    hessian_raises_iff_agnostic [of "\<lparr>dim = Some 3, cls = ''SquaredL2Norm''\<rparr>"]
  by simp

section \<open>All-zero input\<close>

text \<open>
  Claim C3. Every ball and norm \<^verbatim>\<open>prox\<close> is to return its input unchanged when the
  input satisfies the constraint or is the zero vector. On the all-zero vector of
  length five with \<open>tau = 1\<close>, \<^verbatim>\<open>LInftyNorm.prox\<close> brackets its root search with
  \<open>[0, 0]\<close>, where the function is \<open>-tau\<close> at both ends, and the root finder raises;
  \<^verbatim>\<open>SquaredL1Norm._prox_sort\<close> finds no positive test value and takes the maximum of an
  empty index array, which raises; \<^verbatim>\<open>SquaredL1Norm._prox_root\<close>, which tests the norm
  first, returns the input.
\<close>

theorem zero_input_prox_raises:
  "LInftyNorm_prox root_of [0, 0, 0, 0, 0] 1 = Inl BrentqSignError \<and>
   SquaredL1Norm_prox_sort [0, 0, 0, 0, 0] 1 = Inl EmptyReduction \<and>
   SquaredL1Norm_prox_root root_of [0, 0, 0, 0, 0] 1 = Inr [0, 0, 0, 0, 0]"
  by (simp add: LInftyNorm_prox_def LInftyNorm_apply_def brentq_def
      SquaredL1Norm_prox_sort_def sorted_desc_def cumsum_def test_array_def nonzero_gt0_def
      SquaredL1Norm_prox_root_def linalg_norm_def upt5)

section \<open>Projection onto the \<open>\<ell>\<^sub>2\<close> ball\<close>

text \<open>
  Claim C6, as stated: the output of \<^verbatim>\<open>L2Ball.prox\<close> has norm equal to the radius
  exactly when the input was outside the ball (\<open>\<parallel>x\<parallel>\<^sub>2 > radius\<close>). An input on the
  surface of the ball is not outside, is returned unchanged, and has norm equal to the
  radius: \<open>x = [1]\<close> with radius \<open>1\<close>.
\<close>

theorem L2Ball_prox_boundary_counterexample:
  "linalg_norm (L2Ball_prox 1 [1] 1) = 1 \<and> \<not> (1 < linalg_norm [1])"
  by (simp add: L2Ball_prox_def linalg_norm_single1)

text \<open>
  Claim C6, amended. For a radius \<open>r \<ge> 0\<close>, every input \<open>x\<close> and every \<open>tau\<close>, the output
  of \<^verbatim>\<open>L2Ball.prox(x, tau)\<close> has \<open>\<ell>\<^sub>2\<close> norm at most \<open>r\<close>; its norm equals \<open>r\<close> exactly
  when \<open>\<parallel>x\<parallel>\<^sub>2 \<ge> r\<close>, that is when the input is outside the ball or on its surface; and
  when the input is outside (\<open>\<parallel>x\<parallel>\<^sub>2 > r\<close>) the output is \<open>r\<cdot>x/\<parallel>x\<parallel>\<^sub>2\<close>.
\<close>

theorem L2Ball_prox_norm:
  assumes "0 \<le> radius"
  shows "linalg_norm (L2Ball_prox radius arr tau) \<le> radius \<and>
         (linalg_norm (L2Ball_prox radius arr tau) = radius \<longleftrightarrow> radius \<le> linalg_norm arr) \<and>
         (radius < linalg_norm arr \<longrightarrow>
            L2Ball_prox radius arr tau = map (\<lambda>v. radius * v / linalg_norm arr) arr)"
proof (cases "linalg_norm arr \<le> radius")
  case True
  then show ?thesis by (auto simp: L2Ball_prox_def)
next
  case False
  then have pos: "0 < linalg_norm arr" using assms by simp
  have "L2Ball_prox radius arr tau = map (\<lambda>v. radius * v / linalg_norm arr) arr"
    using False by (simp add: L2Ball_prox_def)
  moreover have "linalg_norm (map (\<lambda>v. radius * v / linalg_norm arr) arr) = radius"
    using linalg_norm_rescale [OF pos, of radius] assms by simp
  ultimately show ?thesis using False by simp
qed

theorem L2Ball_prox_norm_witness:
  "(0::real) \<le> 1 \<and> linalg_norm (L2Ball_prox 1 [3, 4] 2) = 1 \<and> 1 < linalg_norm [3, 4] \<and>
   L2Ball_prox 1 [3, 4] 2 = [3 / 5, 4 / 5]"
proof -
  have h: "(0::real) \<le> 1" by simp
  have c: "1 < linalg_norm [3, 4]" by (simp add: linalg_norm_3_4)
  have c': "1 \<le> linalg_norm [3, 4]" by (simp add: linalg_norm_3_4)
  note t = L2Ball_prox_norm [OF h, of "[3, 4]" 2]
  have a: "linalg_norm (L2Ball_prox 1 [3, 4] 2) = 1" using t c' by blast
  have b0: "L2Ball_prox 1 [3, 4] 2 = map (\<lambda>v. 1 * v / linalg_norm [3, 4]) [3, 4]"
    using t c by blast
  have b: "L2Ball_prox 1 [3, 4] 2 = [3 / 5, 4 / 5]" by (simp add: b0 linalg_norm_3_4)
  from h a c b show ?thesis by blast
qed

section \<open>One step of CG\<close>

lemma map2_add_scaled:
  "map2 (+) xs (map (\<lambda>v. c * v) ys) = map2 (\<lambda>u v. u + c * v) xs (ys :: real list)"
  by (simp add: zip_map2 case_prod_beta)

lemma map2_sub_scaled:
  "map2 (-) xs (map (\<lambda>v. c * v) ys) = map2 (\<lambda>u v. u - c * v) xs (ys :: real list)"
  by (simp add: zip_map2 case_prod_beta)

lemma map2_scaled_add:
  "map2 (+) (map (\<lambda>v. v * c) ps) rs = map2 (\<lambda>u v. u + c * v) rs (ps :: real list)"
proof (induction ps arbitrary: rs)
  case Nil
  then show ?case by simp
next
  case (Cons a ps)
  then show ?case by (cases rs) (simp_all add: algebra_simps)
qed

lemma nth_add_arr:
  "i < length u \<Longrightarrow> i < length v \<Longrightarrow> add_arr u v ! i = map2 (+) (u ! i) (v ! i)"
  by (simp add: add_arr_def)

lemma nth_sub_arr:
  "i < length u \<Longrightarrow> i < length v \<Longrightarrow> sub_arr u v ! i = map2 (-) (u ! i) (v ! i)"
  by (simp add: sub_arr_def)

lemma nth_scale_rows:
  "i < length c \<Longrightarrow> i < length a \<Longrightarrow> scale_rows c a ! i = map (\<lambda>v. c ! i * v) (a ! i)"
  by (simp add: scale_rows_def)

lemma nth_mul_rows:
  "i < length a \<Longrightarrow> i < length c \<Longrightarrow> mul_rows a c ! i = map (\<lambda>v. v * c ! i) (a ! i)"
  by (simp add: mul_rows_def)

lemma nth_row_dot:
  "i < length u \<Longrightarrow> i < length v \<Longrightarrow> row_dot u v ! i = sum_list (map2 (*) (u ! i) (v ! i))"
  by (simp add: row_dot_def)

lemma nth_row_norm_sq: "i < length a \<Longrightarrow> row_norm_sq a ! i = (linalg_norm (a ! i))\<^sup>2"
  by (simp add: row_norm_sq_def)

lemma nth_A_apply: "i < length a \<Longrightarrow> A_apply A a ! i = A (a ! i)"
  by (simp add: A_apply_def)

lemma length_arr_ops:
  "length (add_arr u v) = min (length u) (length v)"
  "length (sub_arr u v) = min (length u) (length v)"
  "length (scale_rows c a) = min (length c) (length a)"
  "length (mul_rows a c) = min (length a) (length c)"
  "length (row_dot u v) = min (length u) (length v)"
  "length (row_norm_sq a) = length a"
  "length (A_apply A a) = length a"
  by (simp_all add: add_arr_def sub_arr_def scale_rows_def mul_rows_def row_dot_def
      row_norm_sq_def A_apply_def)

lemma m_init_distinct:
  assumes "b < next_free h0" and "\<forall>a. x0 = Some a \<longrightarrow> a < next_free h0"
    and "m_init bcast A h0 b x0 = Inr (h, mst)"
  shows "distinct [mst_x mst, mst_residual mst, mst_conjugate_dir mst] \<and>
         mst_b mst \<noteq> mst_residual mst \<and> mst_b mst \<noteq> mst_conjugate_dir mst"
  using assms
  by (cases x0) (auto simp: m_init_def alloc_def Let_def split: sum.splits)

lemma m_init_returns:
  assumes "b < next_free h0" and "\<forall>a. x0 = Some a \<longrightarrow> a < next_free h0"
    and "map length (A_apply A (case x0 of None \<Rightarrow> zeros_like (cells h0 b)
                                          | Some a \<Rightarrow> cells h0 a)) =
         map length (cells h0 b)"
  shows "\<exists>h mst. m_init bcast A h0 b x0 = Inr (h, mst) \<and>
           cells h (mst_residual mst) =
             sub_arr (cells h0 b) (A_apply A (case x0 of None \<Rightarrow> zeros_like (cells h0 b)
                                                       | Some a \<Rightarrow> cells h0 a)) \<and>
           cells h (mst_conjugate_dir mst) = cells h (mst_residual mst)"
  using assms
  by (cases x0) (auto simp: m_init_def residual_assign_def alloc_def Let_def)

lemma norm_sq_2_0: "(linalg_norm [2, 0])\<^sup>2 = 4"
  by (simp add: linalg_norm_def)

lemma norm_sq_0_0: "(linalg_norm [0, 0])\<^sup>2 = 0"
  by (simp add: linalg_norm_def)

lemma norm_sq_0_3: "(linalg_norm [0, 3])\<^sup>2 = 9"
  by (simp add: linalg_norm_def)

lemma norm_sq_0_m6: "(linalg_norm [0, - 6])\<^sup>2 = 36"
  by (simp add: linalg_norm_def)

text \<open>
  Claim C1. For every batch of iterates, one call to \<^verbatim>\<open>CG.m_step\<close> transforms the
  state \<open>(x, r, p)\<close> by the classic recurrence, row by row with the row's own \<open>alpha\<close> and
  \<open>beta\<close>: \<open>Ap = A\<cdot>p\<close>; \<open>alpha = \<parallel>r\<parallel>\<^sup>2 / (p\<^sup>T\<cdot>Ap)\<close>; \<open>x_new = x + alpha\<cdot>p\<close>;
  \<open>r_new = r - alpha\<cdot>Ap\<close>; \<open>beta = \<parallel>r_new\<parallel>\<^sup>2 / \<parallel>r\<parallel>\<^sup>2\<close>; \<open>p_new = r_new + beta\<cdot>p\<close>. The
  in-place updates \<^verbatim>\<open>p *= beta; p += r\<close> leave \<open>r_new + beta\<cdot>p\<close> in \<^verbatim>\<open>p\<close>. The three
  arrays are three objects, as \<^verbatim>\<open>m_init\<close> leaves them (\<open>m_init_distinct\<close>), with one row
  per problem; the state keeps its names and no other array changes.
\<close>

theorem m_step_cg_recurrence:
  assumes dist: "distinct [mst_x mst, mst_residual mst, mst_conjugate_dir mst]"
    and lx: "length (s (mst_x mst)) = B"
    and lr: "length (s (mst_residual mst)) = B"
    and lp: "length (s (mst_conjugate_dir mst)) = B"
  shows "snd (m_step A s mst) = mst \<and>
         length (fst (m_step A s mst) (mst_x mst)) = B \<and>
         length (fst (m_step A s mst) (mst_residual mst)) = B \<and>
         length (fst (m_step A s mst) (mst_conjugate_dir mst)) = B \<and>
         (\<forall>i<B. (fst (m_step A s mst) (mst_x mst) ! i,
                  fst (m_step A s mst) (mst_residual mst) ! i,
                  fst (m_step A s mst) (mst_conjugate_dir mst) ! i) =
                 cg_recurrence A (s (mst_x mst) ! i) (s (mst_residual mst) ! i)
                   (s (mst_conjugate_dir mst) ! i)) \<and>
         (\<forall>a. a \<notin> {mst_x mst, mst_residual mst, mst_conjugate_dir mst} \<longrightarrow>
              fst (m_step A s mst) a = s a)"
  using assms
  by (auto simp: m_step_def Let_def cg_recurrence_def length_arr_ops nth_add_arr nth_sub_arr
      nth_scale_rows nth_mul_rows nth_row_dot nth_row_norm_sq nth_A_apply
      map2_add_scaled map2_sub_scaled map2_scaled_add
      simp del: times_divide_eq_left times_divide_eq_right)


theorem m_step_cg_recurrence_witness:
  "distinct [1, 2, 3 :: nat] \<and>
   cg_recurrence (map (\<lambda>t. 2 * t)) [0, 0] [2, 0] [2, 0] = ([1, 0], [0, 0], [0, 0]) \<and>
   cg_recurrence (map (\<lambda>t. 2 * t)) [1, 1] [0, 3] [0, 1] = ([1, 11 / 2], [0, - 6], [0, - 2]) \<and>
   (fst (m_step (map (\<lambda>t. 2 * t))
          ((\<lambda>a. [])(1 := [[0, 0], [1, 1]], 2 := [[2, 0], [0, 3]], 3 := [[2, 0], [0, 1]]))
          \<lparr>mst_b = 0, mst_x = 1, mst_residual = 2, mst_conjugate_dir = 3\<rparr>) 1 ! 0,
    fst (m_step (map (\<lambda>t. 2 * t))
          ((\<lambda>a. [])(1 := [[0, 0], [1, 1]], 2 := [[2, 0], [0, 3]], 3 := [[2, 0], [0, 1]]))
          \<lparr>mst_b = 0, mst_x = 1, mst_residual = 2, mst_conjugate_dir = 3\<rparr>) 2 ! 0,
    fst (m_step (map (\<lambda>t. 2 * t))
          ((\<lambda>a. [])(1 := [[0, 0], [1, 1]], 2 := [[2, 0], [0, 3]], 3 := [[2, 0], [0, 1]]))
          \<lparr>mst_b = 0, mst_x = 1, mst_residual = 2, mst_conjugate_dir = 3\<rparr>) 3 ! 0) =
     ([1, 0], [0, 0], [0, 0]) \<and>
   (fst (m_step (map (\<lambda>t. 2 * t))
          ((\<lambda>a. [])(1 := [[0, 0], [1, 1]], 2 := [[2, 0], [0, 3]], 3 := [[2, 0], [0, 1]]))
          \<lparr>mst_b = 0, mst_x = 1, mst_residual = 2, mst_conjugate_dir = 3\<rparr>) 1 ! 1,
    fst (m_step (map (\<lambda>t. 2 * t))
          ((\<lambda>a. [])(1 := [[0, 0], [1, 1]], 2 := [[2, 0], [0, 3]], 3 := [[2, 0], [0, 1]]))
          \<lparr>mst_b = 0, mst_x = 1, mst_residual = 2, mst_conjugate_dir = 3\<rparr>) 2 ! 1,
    fst (m_step (map (\<lambda>t. 2 * t))
          ((\<lambda>a. [])(1 := [[0, 0], [1, 1]], 2 := [[2, 0], [0, 3]], 3 := [[2, 0], [0, 1]]))
          \<lparr>mst_b = 0, mst_x = 1, mst_residual = 2, mst_conjugate_dir = 3\<rparr>) 3 ! 1) =
     ([1, 11 / 2], [0, - 6], [0, - 2])"
proof -
  let ?A = "map (\<lambda>t. 2 * t) :: real list \<Rightarrow> real list"
  let ?s = "(\<lambda>a. [])(1 := [[0, 0], [1, 1]], 2 := [[2, 0], [0, 3]], 3 := [[2, 0], [0, 1 :: real]])"
  let ?m = "\<lparr>mst_b = 0, mst_x = 1, mst_residual = 2, mst_conjugate_dir = 3\<rparr>"
  have d: "distinct [mst_x ?m, mst_residual ?m, mst_conjugate_dir ?m]" by simp
  have d': "distinct [1, 2, 3 :: nat]" by simp
  have l: "length (?s (mst_x ?m)) = 2" "length (?s (mst_residual ?m)) = 2"
    "length (?s (mst_conjugate_dir ?m)) = 2" by simp_all
  have r0: "cg_recurrence ?A [0, 0] [2, 0] [2, 0] = ([1, 0], [0, 0], [0, 0])"
    by (simp add: cg_recurrence_def Let_def norm_sq_2_0 norm_sq_0_0)
  have r1: "cg_recurrence ?A [1, 1] [0, 3] [0, 1] = ([1, 11 / 2], [0, - 6], [0, - 2])"
    by (simp add: cg_recurrence_def Let_def norm_sq_0_3 norm_sq_0_m6)
  note t = m_step_cg_recurrence [OF d l, of ?A]
  from t have a: "\<forall>i<2. (fst (m_step ?A ?s ?m) (mst_x ?m) ! i,
                  fst (m_step ?A ?s ?m) (mst_residual ?m) ! i,
                  fst (m_step ?A ?s ?m) (mst_conjugate_dir ?m) ! i) =
                 cg_recurrence ?A (?s (mst_x ?m) ! i) (?s (mst_residual ?m) ! i)
                   (?s (mst_conjugate_dir ?m) ! i)" by blast
  have a0: "(fst (m_step ?A ?s ?m) 1 ! 0, fst (m_step ?A ?s ?m) 2 ! 0, fst (m_step ?A ?s ?m) 3 ! 0) =
            ([1, 0], [0, 0], [0, 0])"
    using a [rule_format, of 0] r0 by simp
  have a1: "(fst (m_step ?A ?s ?m) 1 ! 1, fst (m_step ?A ?s ?m) 2 ! 1, fst (m_step ?A ?s ?m) 3 ! 1) =
            ([1, 11 / 2], [0, - 6], [0, - 2])"
    using a [rule_format, of 1] r1 by simp
  from d' r0 r1 a0 a1 show ?thesis by blast
qed

section \<open>The default stopping criterion of CG\<close>

text \<open>
  Claim C7. The default stopping criterion of CG recomputes the explicit residual
  \<open>b - A\<cdot>x\<close> from the current iterate \<open>x\<close> and declares convergence exactly when the
  \<open>\<ell>\<^sub>2\<close> norm of that residual is below \<open>1e-4\<close>: for a batch of \<open>B\<close> problems, when
  \<open>sqrt(\<Sum>\<^sub>j (b\<^sub>i\<^sub>j - (A x\<^sub>i)\<^sub>j)\<^sup>2) < 1e-4\<close> in every row \<open>i\<close>. It does not read the residual
  that the recurrence keeps in the solver state: overwriting that array, an object of its
  own, leaves the verdict as it is.
\<close>

theorem default_stop_crit_explicit_residual:
  assumes "length (s (mst_b mst)) = B" and "length (s (mst_x mst)) = B"
  shows "(AbsError_stop (default_stop_crit A) s mst \<longleftrightarrow>
            (\<forall>i<B. sqrt (sum_list (map (\<lambda>v. v\<^sup>2)
                       (map2 (-) (s (mst_b mst) ! i) (A (s (mst_x mst) ! i))))) < 1 / 10 ^ 4)) \<and>
         (mst_residual mst \<noteq> mst_b mst \<and> mst_residual mst \<noteq> mst_x mst \<longrightarrow>
            AbsError_stop (default_stop_crit A) (s(mst_residual mst := r')) mst =
            AbsError_stop (default_stop_crit A) s mst)"
proof -
  let ?res = "sub_arr (s (mst_b mst)) (A_apply A (s (mst_x mst)))"
  have len: "length ?res = B" using assms by (simp add: length_arr_ops)
  have row: "?res ! i = map2 (-) (s (mst_b mst) ! i) (A (s (mst_x mst) ! i))" if "i < B" for i
    using that assms by (simp add: nth_sub_arr nth_A_apply length_arr_ops)
  have "AbsError_stop (default_stop_crit A) s mst \<longleftrightarrow>
        (\<forall>i<length ?res. linalg_norm (?res ! i) < 1 / 10 ^ 4)"
    by (simp add: AbsError_stop_def default_stop_crit_def explicit_residual_def list_all_iff
        all_set_conv_all_nth Let_def)
  then have first: "AbsError_stop (default_stop_crit A) s mst \<longleftrightarrow>
        (\<forall>i<B. sqrt (sum_list (map (\<lambda>v. v\<^sup>2)
                   (map2 (-) (s (mst_b mst) ! i) (A (s (mst_x mst) ! i))))) < 1 / 10 ^ 4)"
    unfolding len by (simp add: row linalg_norm_def)
  have second: "mst_residual mst \<noteq> mst_b mst \<and> mst_residual mst \<noteq> mst_x mst \<longrightarrow>
        AbsError_stop (default_stop_crit A) (s(mst_residual mst := r')) mst =
        AbsError_stop (default_stop_crit A) s mst"
    by (simp add: AbsError_stop_def default_stop_crit_def explicit_residual_def)
  from first second show ?thesis by blast
qed

theorem default_stop_crit_explicit_residual_witness:
  "length [[2, 0 :: real]] = 1 \<and>
   map2 (-) [2, 0] (map (\<lambda>t. 2 * t) [1, 0 :: real]) = [0, 0] \<and>
   AbsError_stop (default_stop_crit (map (\<lambda>t. 2 * t)))
     ((\<lambda>a. [])(0 := [[2, 0]], 1 := [[1, 0]], 2 := [[7, 7]]))
     \<lparr>mst_b = 0, mst_x = 1, mst_residual = 2, mst_conjugate_dir = 3\<rparr> \<and>
   map2 (-) [2, 0] (map (\<lambda>t. 2 * t) [2, 0 :: real]) = [- 2, 0] \<and>
   \<not> AbsError_stop (default_stop_crit (map (\<lambda>t. 2 * t)))
     ((\<lambda>a. [])(0 := [[2, 0]], 1 := [[2, 0]], 2 := [[0, 0]]))
     \<lparr>mst_b = 0, mst_x = 1, mst_residual = 2, mst_conjugate_dir = 3\<rparr>"
proof -
  let ?A = "map (\<lambda>t. 2 * t) :: real list \<Rightarrow> real list"
  let ?m = "\<lparr>mst_b = 0, mst_x = 1, mst_residual = 2, mst_conjugate_dir = 3\<rparr>"
  let ?s1 = "(\<lambda>a. [])(0 := [[2, 0]], 1 := [[1, 0]], 2 := [[7, 7 :: real]])"
  let ?s2 = "(\<lambda>a. [])(0 := [[2, 0]], 1 := [[2, 0]], 2 := [[0, 0 :: real]])"
  have l: "length [[2, 0 :: real]] = 1" by simp
  have e1: "map2 (-) [2, 0] (?A [1, 0]) = [0, 0]" by simp
  have e2: "map2 (-) [2, 0] (?A [2, 0]) = [- 2, 0]" by simp
  have n1: "sqrt (sum_list (map (\<lambda>v. v\<^sup>2) [0, 0 :: real])) < 1 / 10 ^ 4" by simp
  have "sqrt (sum_list (map (\<lambda>v. v\<^sup>2) [- 2, 0 :: real])) = 2"
    by (rule real_sqrt_unique) simp_all
  then have n2: "\<not> sqrt (sum_list (map (\<lambda>v. v\<^sup>2) [- 2, 0 :: real])) < 1 / 10 ^ 4" by simp
  have l1: "length (?s1 (mst_b ?m)) = 1" "length (?s1 (mst_x ?m)) = 1" by simp_all
  have l2: "length (?s2 (mst_b ?m)) = 1" "length (?s2 (mst_x ?m)) = 1" by simp_all
  have "\<forall>i<1. sqrt (sum_list (map (\<lambda>v. v\<^sup>2)
            (map2 (-) (?s1 (mst_b ?m) ! i) (?A (?s1 (mst_x ?m) ! i))))) < 1 / 10 ^ 4"
    using n1 by simp
  with default_stop_crit_explicit_residual [OF l1, of ?A]
  have a: "AbsError_stop (default_stop_crit ?A) ?s1 ?m" by blast
  have "\<not> (\<forall>i<1. sqrt (sum_list (map (\<lambda>v. v\<^sup>2)
            (map2 (-) (?s2 (mst_b ?m) ! i) (?A (?s2 (mst_x ?m) ! i))))) < 1 / 10 ^ 4)"
    using n2 by simp
  with default_stop_crit_explicit_residual [OF l2, of ?A]
  have b: "\<not> AbsError_stop (default_stop_crit ?A) ?s2 ?m" by blast
  from l e1 a e2 b show ?thesis by blast
qed

section \<open>The sort-based prox of the squared \<open>\<ell>\<^sub>1\<close> norm\<close>

lemma length_cumsum_from: "length (cumsum_from acc vs) = length vs"
  by (induction vs arbitrary: acc) auto

lemma nth_cumsum_from:
  "k < length vs \<Longrightarrow> cumsum_from acc vs ! k = acc + sum_list (take (Suc k) vs)"
proof (induction vs arbitrary: acc k)
  case Nil
  then show ?case by simp
next
  case (Cons v vs)
  then show ?case by (cases k) (simp_all add: add.assoc)
qed

lemma nth_cumsum: "k < length vs \<Longrightarrow> cumsum vs ! k = sum_list (take (Suc k) vs)"
  by (simp add: cumsum_def nth_cumsum_from)

lemma length_test_array: "length (test_array z tau) = length z"
  by (simp add: test_array_def)

lemma nth_test_array: "k < length z \<Longrightarrow> test_array z tau ! k = spec_test z tau k"
  by (simp add: test_array_def spec_test_def spec_threshold_def nth_cumsum)

lemma set_nonzero_gt0:
  "set (nonzero_gt0 (test_array z tau)) = {k. k < length z \<and> 0 < spec_test z tau k}"
  by (auto simp: nonzero_gt0_def length_test_array nth_test_array)

lemma xp_max_index_Max: "xp_max_index ks = Inr (Max (set ks))" if "ks \<noteq> []"
proof (cases ks)
  case Nil
  then show ?thesis using that by simp
next
  case (Cons k ks')
  then show ?thesis using Max.set_eq_fold [of k ks'] by simp
qed

lemma length_sorted_desc: "length (sorted_desc arr) = length arr"
  by (simp add: sorted_desc_def)

lemma set_sorted_desc: "set (sorted_desc arr) = abs ` set arr"
  by (simp add: sorted_desc_def)

lemma mset_sorted_desc: "mset (sorted_desc arr) = mset (map abs arr)"
  by (simp add: sorted_desc_def)

lemma sorted_desc_nth_mono:
  "i \<le> j \<Longrightarrow> j < length arr \<Longrightarrow> sorted_desc arr ! j \<le> sorted_desc arr ! i"
  using sorted_rev_nth_mono [of "sorted_desc arr" i j]
  by (simp add: sorted_desc_def)

lemma sorted_desc_first_pos:
  assumes "\<exists>v\<in>set arr. v \<noteq> 0"
  shows "0 < sorted_desc arr ! 0"
proof -
  from assms obtain v where v: "v \<in> set arr" "v \<noteq> 0" by blast
  then have "\<bar>v\<bar> \<in> set (sorted_desc arr)" by (simp add: set_sorted_desc)
  then obtain j where j: "j < length (sorted_desc arr)" "sorted_desc arr ! j = \<bar>v\<bar>"
    by (auto simp: in_set_conv_nth)
  then have "sorted_desc arr ! j \<le> sorted_desc arr ! 0"
    using sorted_desc_nth_mono [of 0 j arr] by (simp add: length_sorted_desc)
  with j v show ?thesis by simp
qed

lemma spec_test_first:
  assumes "z \<noteq> []" and "0 < tau"
  shows "spec_test z tau 0 = z ! 0 / (1 + 2 * tau)"
proof -
  from assms(1) have "take (Suc 0) z = [z ! 0]" by (cases z) simp_all
  then have "spec_test z tau 0 = z ! 0 - 2 * tau / (1 + 2 * tau) * z ! 0"
    by (simp add: spec_test_def spec_threshold_def)
  also have "\<dots> = z ! 0 / (1 + 2 * tau)"
    using assms(2) by (simp add: field_simps)
  finally show ?thesis .
qed

lemma positive_tests_nonempty:
  assumes "\<exists>v\<in>set arr. v \<noteq> 0" and "0 < tau"
  shows "0 \<in> {k. k < length (sorted_desc arr) \<and> 0 < spec_test (sorted_desc arr) tau k}"
proof -
  from assms(1) have "0 < length arr" by auto
  then have ne: "sorted_desc arr \<noteq> []"
    using length_sorted_desc [of arr] by auto
  have "0 < sorted_desc arr ! 0 / (1 + 2 * tau)"
    using sorted_desc_first_pos [OF assms(1)] assms(2) by simp
  then show ?thesis using ne by (simp add: spec_test_first [OF ne assms(2)])
qed

lemma prox_sort_eq:
  assumes "\<exists>v\<in>set arr. v \<noteq> 0" and "0 < tau"
  shows "SquaredL1Norm_prox_sort arr tau =
         Inr (fmax_fabs_sign
               (spec_threshold (sorted_desc arr) tau
                 (Max {k. k < length (sorted_desc arr) \<and> 0 < spec_test (sorted_desc arr) tau k}))
               arr)"
proof -
  let ?z = "sorted_desc arr"
  let ?P = "{k. k < length ?z \<and> 0 < spec_test ?z tau k}"
  define K where "K = Max ?P"
  have fin: "finite ?P" by simp
  have ne: "?P \<noteq> {}" using positive_tests_nonempty [OF assms] by blast
  have "Max ?P \<in> ?P" using Max_in [OF fin ne] .
  then have K: "K < length ?z" unfolding K_def by blast
  have nz: "nonzero_gt0 (test_array ?z tau) \<noteq> []"
  proof
    assume "nonzero_gt0 (test_array ?z tau) = []"
    then have "set (nonzero_gt0 (test_array ?z tau)) = {}" by (simp only: set_empty)
    with ne show False by (simp only: set_nonzero_gt0)
  qed
  have idx: "xp_max_index (nonzero_gt0 (test_array ?z tau)) = Inr K"
    unfolding K_def xp_max_index_Max [OF nz] set_nonzero_gt0 ..
  have cs: "cumsum ?z ! K = sum_list (take (Suc K) ?z)"
    using K by (rule nth_cumsum)
  have "SquaredL1Norm_prox_sort arr tau = Inr (fmax_fabs_sign (spec_threshold ?z tau K) arr)"
    unfolding SquaredL1Norm_prox_sort_def Let_def idx spec_threshold_def by (simp add: cs)
  then show ?thesis unfolding K_def .
qed

lemma spec_test_3_2_1: "spec_test [3, 2] (1 / 2) 1 = 1 / 3"
  by (simp add: spec_test_def spec_threshold_def)

lemma spec_threshold_3_2_1: "spec_threshold [3, 2] (1 / 2) 1 = 5 / 3"
  by (simp add: spec_threshold_def)

text \<open>
  Claim C8. For every input \<open>x\<close> with a non-zero entry and every \<open>tau > 0\<close>, the sort-based
  prox of \<^verbatim>\<open>SquaredL1Norm\<close> returns, and what it returns is made in these steps: \<open>z\<close> is
  \<open>|x|\<close> sorted in descending order; \<open>K\<close> is the largest index at which the test quantity
  \<open>z\<^sub>k - (2\<tau>/(1+(k+1)\<cdot>2\<tau>))\<cdot>cumsum\<^sub>k\<close> is strictly positive (it is positive at \<open>K\<close> and at no
  later index); the threshold is \<open>(2\<tau>/(1+(K+1)\<cdot>2\<tau>))\<cdot>cumsum\<^sub>K\<close>; the result is the
  soft-threshold of \<open>x\<close> at that threshold.
\<close>

theorem prox_sort_steps:
  assumes "\<exists>v\<in>set arr. v \<noteq> 0" and "0 < tau"
  shows "let z = rev (sort (map abs arr));
             K = Max {k. k < length z \<and> 0 < spec_test z tau k}
         in K < length z \<and> 0 < spec_test z tau K \<and>
            (\<forall>j. K < j \<and> j < length z \<longrightarrow> spec_test z tau j \<le> 0) \<and>
            SquaredL1Norm_prox_sort arr tau =
              Inr (map (\<lambda>v. sgn v * max 0 (\<bar>v\<bar> - spec_threshold z tau K)) arr)"
proof -
  let ?z = "sorted_desc arr"
  let ?P = "{k. k < length ?z \<and> 0 < spec_test ?z tau k}"
  define K where "K = Max ?P"
  have fin: "finite ?P" by simp
  have ne: "?P \<noteq> {}" using positive_tests_nonempty [OF assms] by blast
  have "Max ?P \<in> ?P" using Max_in [OF fin ne] .
  then have K: "K < length ?z" "0 < spec_test ?z tau K" unfolding K_def by blast+
  have above: "spec_test ?z tau j \<le> 0" if "K < j" "j < length ?z" for j
  proof (rule ccontr)
    assume "\<not> spec_test ?z tau j \<le> 0"
    with that have "j \<in> ?P" by simp
    then have "j \<le> K" unfolding K_def using Max_ge [OF fin] by blast
    with that show False by simp
  qed
  have "SquaredL1Norm_prox_sort arr tau = Inr (fmax_fabs_sign (spec_threshold ?z tau K) arr)"
    unfolding K_def by (rule prox_sort_eq [OF assms])
  then have res: "SquaredL1Norm_prox_sort arr tau =
        Inr (map (\<lambda>v. sgn v * max 0 (\<bar>v\<bar> - spec_threshold ?z tau K)) arr)"
    by (simp add: fmax_fabs_sign_def mult.commute)
  from K above res
  have "K < length ?z \<and> 0 < spec_test ?z tau K \<and>
        (\<forall>j. K < j \<and> j < length ?z \<longrightarrow> spec_test ?z tau j \<le> 0) \<and>
        SquaredL1Norm_prox_sort arr tau =
          Inr (map (\<lambda>v. sgn v * max 0 (\<bar>v\<bar> - spec_threshold ?z tau K)) arr)"
    by blast
  then show ?thesis
    unfolding Let_def K_def sorted_desc_def .
qed

theorem prox_sort_steps_witness:
  "(- 2 :: real) \<noteq> 0 \<and> (0 :: real) < 1 / 2 \<and>
   rev (sort (map abs [- 2, 3 :: real])) = [3, 2] \<and>
   Max {k. k < length [3, 2 :: real] \<and> 0 < spec_test [3, 2] (1 / 2) k} = 1 \<and>
   spec_threshold [3, 2] (1 / 2) 1 = 5 / 3 \<and>
   SquaredL1Norm_prox_sort [- 2, 3] (1 / 2) = Inr [- 1 / 3, 4 / 3]"
proof -
  define K where "K = Max {k. k < length [3, 2 :: real] \<and> 0 < spec_test [3, 2] (1 / 2) k}"
  have z: "rev (sort (map abs [- 2, 3 :: real])) = [3, 2]" by simp
  have h1: "\<exists>v\<in>set [- 2, 3 :: real]. v \<noteq> 0" by simp
  have h2: "(0 :: real) < 1 / 2" by simp
  note t = prox_sort_steps [OF h1 h2, unfolded Let_def z, folded K_def]
  from t have K2: "K < 2" by simp
  from t have top: "\<forall>j. K < j \<and> j < 2 \<longrightarrow> spec_test [3, 2] (1 / 2) j \<le> 0" by simp
  have "K = 1"
  proof (rule ccontr)
    assume "K \<noteq> 1"
    with K2 have "K < 1 \<and> (1::nat) < 2" by simp
    with top have "spec_test [3, 2] (1 / 2) 1 \<le> 0" by blast
    then show False unfolding spec_test_3_2_1 by simp
  qed
  with t have "SquaredL1Norm_prox_sort [- 2, 3] (1 / 2) =
      Inr (map (\<lambda>v. sgn v * max 0 (\<bar>v\<bar> - spec_threshold [3, 2] (1 / 2) 1)) [- 2, 3])"
    by simp
  then have r: "SquaredL1Norm_prox_sort [- 2, 3] (1 / 2) = Inr [- 1 / 3, 4 / 3]"
    unfolding spec_threshold_3_2_1 by simp
  have m: "Max {k. k < length [3, 2 :: real] \<and> 0 < spec_test [3, 2] (1 / 2) k} = 1"
    using \<open>K = 1\<close> unfolding K_def .
  have nz: "(- 2 :: real) \<noteq> 0" by simp
  from nz h2 z m spec_threshold_3_2_1 r show ?thesis by blast
qed

section \<open>Agreement of the sort-based and the root-based prox\<close>

text \<open>
  Both algorithms soft-threshold \<open>x\<close> at a threshold \<open>t\<close> that solves
  \<open>2\<tau>\<cdot>\<Sum> max(|x\<^sub>i| - t, 0) = t\<close>: the sort-based one reaches it through the sorted
  cumulative sums, the root-based one as \<open>2\<tau>/sqrt(\<tau>/\<mu>)\<close> for a root \<open>\<mu>\<close> of its auxiliary
  function. The left-hand side does not increase with \<open>t\<close>, so the equation has one
  solution.
\<close>

lemma sum_list_map_mset_cong:
  "mset xs = mset ys \<Longrightarrow> sum_list (map g xs) = sum_list (map g (ys :: real list))"
  for g :: "real \<Rightarrow> real"
  by (metis mset_map sum_mset_sum_list)

lemma excess_sorted_desc:
  "sum_list (map (\<lambda>v. max (\<bar>v\<bar> - t) 0) arr) =
   sum_list (map (\<lambda>v. max (v - t) 0) (sorted_desc arr))"
proof -
  have "sum_list (map (\<lambda>v. max (\<bar>v\<bar> - t) 0) arr) =
        sum_list (map (\<lambda>v. max (v - t) 0) (map abs arr))"
    by (simp add: comp_def)
  also have "\<dots> = sum_list (map (\<lambda>v. max (v - t) 0) (sorted_desc arr))"
    by (rule sum_list_map_mset_cong) (simp add: mset_sorted_desc)
  finally show ?thesis .
qed

lemma excess_all_above:
  "(\<forall>v\<in>set xs. t < v) \<Longrightarrow>
   sum_list (map (\<lambda>v. max (v - t) 0) xs) = sum_list xs - real (length xs) * (t :: real)"
  by (induction xs) (auto simp: algebra_simps max_def)

lemma excess_all_below:
  "(\<forall>v\<in>set xs. v \<le> t) \<Longrightarrow> sum_list (map (\<lambda>v. max (v - t) 0) xs) = (0 :: real)"
  by (induction xs) (auto simp: max_def)

lemma excess_antimono:
  "t1 \<le> t2 \<Longrightarrow> sum_list (map (\<lambda>v. max (\<bar>v\<bar> - t2) 0) arr) \<le>
                 sum_list (map (\<lambda>v. max (\<bar>v\<bar> - t1) 0) (arr :: real list))"
  by (induction arr) (auto simp: max_def intro: add_mono)

lemma fixed_threshold_unique:
  assumes "0 < tau"
    and "2 * tau * sum_list (map (\<lambda>v. max (\<bar>v\<bar> - t1) 0) arr) = t1"
    and "2 * tau * sum_list (map (\<lambda>v. max (\<bar>v\<bar> - t2) 0) arr) = t2"
  shows "t1 = (t2 :: real)"
proof -
  have le: "b \<le> a" if "a \<le> b"
    and a: "2 * tau * sum_list (map (\<lambda>v. max (\<bar>v\<bar> - a) 0) arr) = a"
    and b: "2 * tau * sum_list (map (\<lambda>v. max (\<bar>v\<bar> - b) 0) arr) = b" for a b :: real
  proof -
    have "sum_list (map (\<lambda>v. max (\<bar>v\<bar> - b) 0) arr) \<le> sum_list (map (\<lambda>v. max (\<bar>v\<bar> - a) 0) arr)"
      using that(1) by (rule excess_antimono)
    then have "2 * tau * sum_list (map (\<lambda>v. max (\<bar>v\<bar> - b) 0) arr) \<le>
               2 * tau * sum_list (map (\<lambda>v. max (\<bar>v\<bar> - a) 0) arr)"
      using assms(1) by (simp add: mult_left_mono)
    with a b show ?thesis by simp
  qed
  show ?thesis
  proof (cases "t1 \<le> t2")
    case True
    with le [OF True assms(2) assms(3)] show ?thesis by simp
  next
    case False
    then have "t2 \<le> t1" by simp
    with le [OF this assms(3) assms(2)] show ?thesis by simp
  qed
qed

lemma threshold_algebra:
  assumes "0 < tau" and "t = 2 * tau / (1 + (real K + 1) * 2 * tau) * S"
  shows "2 * tau * (S - real (Suc K) * t) = t"
proof -
  define d where "d = 1 + (real K + 1) * 2 * tau"
  have d: "0 < d" using assms(1) unfolding d_def by (simp add: add_pos_nonneg)
  have "t * d = 2 * tau * S" using assms(2) d unfolding d_def by simp
  then have "2 * tau * (S - real (Suc K) * t) = t * d - 2 * tau * (real K + 1) * t"
    by (simp add: algebra_simps)
  also have "\<dots> = t" unfolding d_def by (simp add: algebra_simps)
  finally show ?thesis .
qed

lemma next_below:
  assumes "0 < tau"
    and "y - 2 * tau / (1 + (real (Suc K) + 1) * 2 * tau) * (S + y) \<le> 0"
  shows "y \<le> 2 * tau / (1 + (real K + 1) * 2 * tau) * S"
proof -
  define d0 where "d0 = 1 + (real K + 1) * 2 * tau"
  define d1 where "d1 = 1 + (real (Suc K) + 1) * 2 * tau"
  have d0: "0 < d0" using assms(1) unfolding d0_def by (simp add: add_pos_nonneg)
  have d1: "0 < d1" using assms(1) unfolding d1_def by (simp add: add_pos_nonneg)
  have rel: "d1 = d0 + 2 * tau" unfolding d0_def d1_def by (simp add: algebra_simps)
  from assms(2) have "y \<le> 2 * tau * (S + y) / d1" unfolding d1_def by simp
  then have "y * d1 \<le> 2 * tau * (S + y)" using d1 by (simp add: pos_le_divide_eq)
  then have "y * d0 \<le> 2 * tau * S" unfolding rel by (simp add: algebra_simps)
  then have "y \<le> 2 * tau * S / d0" using d0 by (simp add: pos_le_divide_eq)
  then show ?thesis unfolding d0_def by simp
qed

lemma sort_threshold_fixed:
  assumes "\<exists>v\<in>set arr. v \<noteq> 0" and "0 < tau"
  defines "z \<equiv> sorted_desc arr"
  defines "K \<equiv> Max {k. k < length (sorted_desc arr) \<and> 0 < spec_test (sorted_desc arr) tau k}"
  defines "t \<equiv> spec_threshold (sorted_desc arr) tau K"
  shows "2 * tau * sum_list (map (\<lambda>v. max (\<bar>v\<bar> - t) 0) arr) = t"
proof -
  let ?P = "{k. k < length z \<and> 0 < spec_test z tau k}"
  have fin: "finite ?P" by simp
  have ne: "?P \<noteq> {}" using positive_tests_nonempty [OF assms(1,2)] unfolding z_def by blast
  have "Max ?P \<in> ?P" using Max_in [OF fin ne] .
  then have K: "K < length z" "0 < spec_test z tau K" unfolding K_def z_def by blast+
  have Karr: "K < length arr" using K(1) unfolding z_def by (simp add: length_sorted_desc)
  have above: "spec_test z tau j \<le> 0" if "K < j" "j < length z" for j
  proof (rule ccontr)
    assume "\<not> spec_test z tau j \<le> 0"
    with that have "j \<in> ?P" by simp
    then have "j \<le> K" unfolding K_def z_def using Max_ge [OF fin] unfolding z_def by blast
    with that show False by simp
  qed
  have t_eq: "t = 2 * tau / (1 + (real K + 1) * 2 * tau) * sum_list (take (Suc K) z)"
    unfolding t_def z_def spec_threshold_def ..
  have zK: "t < z ! K" using K(2) unfolding spec_test_def t_def z_def by simp
  have hi: "\<forall>v\<in>set (take (Suc K) z). t < v"
  proof
    fix v assume "v \<in> set (take (Suc K) z)"
    then obtain j where j: "j < length (take (Suc K) z)" "take (Suc K) z ! j = v"
      by (auto simp: in_set_conv_nth)
    then have jK: "j \<le> K" by simp
    then have "z ! K \<le> z ! j" unfolding z_def using Karr by (rule sorted_desc_nth_mono)
    moreover have "v = z ! j" using j by simp
    ultimately show "t < v" using zK by simp
  qed
  have lo: "\<forall>v\<in>set (drop (Suc K) z). v \<le> t"
  proof
    fix v assume "v \<in> set (drop (Suc K) z)"
    then obtain i where i: "i < length (drop (Suc K) z)" "drop (Suc K) z ! i = v"
      by (auto simp: in_set_conv_nth)
    then have SK: "Suc K < length z" and iz: "Suc K + i < length z" by simp_all
    have v: "v = z ! (Suc K + i)" using i SK by simp
    have "v \<le> z ! Suc K"
      unfolding v z_def using iz unfolding z_def
      by (intro sorted_desc_nth_mono) (simp_all add: length_sorted_desc)
    moreover have "z ! Suc K \<le> t"
    proof -
      have "spec_test z tau (Suc K) \<le> 0" using above [of "Suc K"] SK by simp
      moreover have "sum_list (take (Suc (Suc K)) z) = sum_list (take (Suc K) z) + z ! Suc K"
        using SK by (simp add: take_Suc_conv_app_nth)
      ultimately have "z ! Suc K - 2 * tau / (1 + (real (Suc K) + 1) * 2 * tau) *
                         (sum_list (take (Suc K) z) + z ! Suc K) \<le> 0"
        unfolding spec_test_def spec_threshold_def by simp
      from next_below [OF assms(2) this] show ?thesis unfolding t_eq .
    qed
    ultimately show "v \<le> t" by simp
  qed
  have "sum_list (map (\<lambda>v. max (v - t) 0) z) =
        sum_list (map (\<lambda>v. max (v - t) 0) (take (Suc K) z)) +
        sum_list (map (\<lambda>v. max (v - t) 0) (drop (Suc K) z))"
    by (metis append_take_drop_id map_append sum_list_append)
  also have "\<dots> = sum_list (take (Suc K) z) - real (Suc K) * t"
    using excess_all_above [OF hi] excess_all_below [OF lo] K(1) by (simp add: min_def)
  finally have "sum_list (map (\<lambda>v. max (\<bar>v\<bar> - t) 0) arr) =
                sum_list (take (Suc K) z) - real (Suc K) * t"
    unfolding z_def by (simp only: excess_sorted_desc)
  then show ?thesis using threshold_algebra [OF assms(2) t_eq] by simp
qed

lemma sum_list_sq_pos:
  "\<exists>v\<in>set arr. v \<noteq> 0 \<Longrightarrow> 0 < sum_list (map (\<lambda>v. v\<^sup>2) (arr :: real list))"
proof (induction arr)
  case Nil
  then show ?case by simp
next
  case (Cons a arr)
  show ?case
  proof (cases "a = 0")
    case True
    with Cons show ?thesis by simp
  next
    case False
    then have "0 < a\<^sup>2" by simp
    from add_pos_nonneg [OF this sum_list_sq_nonneg [of arr]] show ?thesis by simp
  qed
qed

lemma linalg_norm_pos: "\<exists>v\<in>set arr. v \<noteq> 0 \<Longrightarrow> 0 < linalg_norm arr"
  by (simp add: linalg_norm_def sum_list_sq_pos)

lemma scaled_excess:
  assumes "0 < s"
  shows "max (a * s - c) 0 = s * max (a - c / s) (0 :: real)"
proof (cases "a \<le> c / s")
  case True
  then have "a * s \<le> c" using assms by (simp add: pos_le_divide_eq)
  with True show ?thesis by (simp add: max_def)
next
  case False
  then have "c / s < a" by simp
  then have "c < a * s" using assms by (simp add: pos_divide_less_eq)
  moreover have "s * (a - c / s) = a * s - c" using assms by (simp add: algebra_simps)
  ultimately show ?thesis using False by (simp add: max_def)
qed

lemma root_threshold_fixed:
  assumes "0 < tau" and "0 < mu" and "prox_root_func arr tau mu = 0"
  shows "2 * tau * sum_list (map (\<lambda>v. max (\<bar>v\<bar> - 2 * tau / sqrt (tau / mu)) 0) arr) =
         2 * tau / sqrt (tau / mu)"
proof -
  define s where "s = sqrt (tau / mu)"
  have s: "0 < s" using assms(1,2) unfolding s_def by simp
  have "sum_list (map (\<lambda>v. max (\<bar>v\<bar> * s - 2 * tau) 0) arr) =
        sum_list (map (\<lambda>v. s * max (\<bar>v\<bar> - 2 * tau / s) 0) arr)"
    by (simp only: scaled_excess [OF s])
  also have "\<dots> = s * sum_list (map (\<lambda>v. max (\<bar>v\<bar> - 2 * tau / s) 0) arr)"
    by (simp add: sum_list_const_mult)
  finally have "s * sum_list (map (\<lambda>v. max (\<bar>v\<bar> - 2 * tau / s) 0) arr) - 1 = 0"
    using assms(3) unfolding prox_root_func_def s_def by simp
  then have "sum_list (map (\<lambda>v. max (\<bar>v\<bar> - 2 * tau / s) 0) arr) = 1 / s"
    using s by (simp add: field_simps)
  then show ?thesis unfolding s_def by simp
qed

lemma shrink_eq_soft_threshold:
  assumes "0 < tau" and "0 < s"
  shows "(let lambda = max (\<bar>v\<bar> * s - 2 * tau) 0 in lambda * v / (lambda + 2 * tau)) =
         max 0 (\<bar>v\<bar> - 2 * tau / s) * sgn (v :: real)"
proof (cases "\<bar>v\<bar> * s \<le> 2 * tau")
  case True
  then have "\<bar>v\<bar> \<le> 2 * tau / s" using assms(2) by (simp add: pos_le_divide_eq)
  with True show ?thesis by (simp add: max_def)
next
  case False
  then have gt: "2 * tau < \<bar>v\<bar> * s" by simp
  then have gt': "2 * tau / s < \<bar>v\<bar>" using assms(2) by (simp add: pos_divide_less_eq)
  have v0: "v \<noteq> 0" using gt assms(1) by auto
  have "(\<bar>v\<bar> * s - 2 * tau) * v / (\<bar>v\<bar> * s) = (\<bar>v\<bar> - 2 * tau / s) * sgn v"
    using v0 assms(2) by (simp add: sgn_real_def field_simps)
  then show ?thesis using gt gt' by (simp add: max_def Let_def)
qed

lemma upt2: "[0..<2] = [0, 1]"
  by (simp add: upt_rec)

lemma sqrt_inv_mu_min: "sqrt (1 / (1 / 10 ^ 12)) = 10 ^ 6"
  by (rule real_sqrt_unique) simp_all

lemma sqrt_4_9: "sqrt (1 / (9 / 4)) = 2 / 3"
  by (rule real_sqrt_unique) (simp_all add: power2_eq_square)

lemma sqrt_1_1: "sqrt (1 / 1) = 1"
  by simp

lemma root_func_at_mu_min: "prox_root_func [- 2, 3] 1 (1 / 10 ^ 12) = 4999995"
  unfolding prox_root_func_def sqrt_inv_mu_min by simp

lemma root_func_at_mu_max: "prox_root_func [- 2, 3] 1 (9 / 4) = - 1"
  unfolding prox_root_func_def sqrt_4_9 by simp

lemma root_func_at_root: "prox_root_func [- 2, 3] 1 1 = 0"
  unfolding prox_root_func_def sqrt_1_1 by simp

lemma prox_sort_m2_3: "SquaredL1Norm_prox_sort [- 2, 3] 1 = Inr [0, 1]"
  by (simp add: SquaredL1Norm_prox_sort_def sorted_desc_def cumsum_def test_array_def
      nonzero_gt0_def fmax_fabs_sign_def upt2)

text \<open>
  In exact arithmetic the two algorithms agree wherever the root search succeeds: for an
  input with a non-zero entry and \<open>tau > 0\<close>, if the root finder returns an exact root
  \<open>\<mu> \<ge> 1e-12\<close> of the auxiliary function, the root-based prox returns what the sort-based
  prox returns.
\<close>

lemma exact_root_agreement:
  assumes nz: "\<exists>v\<in>set arr. v \<noteq> 0" and tau: "0 < tau"
    and root: "brentq root_of (prox_root_func arr tau) (1 / 10 ^ 12)
                 (Max (set (map (\<lambda>v. \<bar>v\<bar>\<^sup>2) arr)) / (4 * tau)) = Inr mu"
    and exact: "prox_root_func arr tau mu = 0"
    and inside: "1 / 10 ^ 12 \<le> mu"
  shows "SquaredL1Norm_prox_root root_of arr tau = SquaredL1Norm_prox_sort arr tau \<and>
         (\<exists>y. SquaredL1Norm_prox_sort arr tau = Inr y)"
proof -
  define s where "s = sqrt (tau / mu)"
  define t where "t = spec_threshold (sorted_desc arr) tau
    (Max {k. k < length (sorted_desc arr) \<and> 0 < spec_test (sorted_desc arr) tau k})"
  have mu: "0 < mu" using inside by (rule less_le_trans [rotated]) simp
  have s: "0 < s" using tau mu unfolding s_def by simp
  from nz have "map (\<lambda>v. \<bar>v\<bar>\<^sup>2) arr \<noteq> []" by auto
  then have mx: "xp_max (map (\<lambda>v. \<bar>v\<bar>\<^sup>2) arr) = Inr (Max (set (map (\<lambda>v. \<bar>v\<bar>\<^sup>2) arr)))"
    by (rule xp_max_Max)
  have "SquaredL1Norm_prox_root root_of arr tau =
        Inr (map (\<lambda>v. let lambda = max (\<bar>v\<bar> * s - 2 * tau) 0
                       in lambda * v / (lambda + 2 * tau)) arr)"
    unfolding SquaredL1Norm_prox_root_def s_def
    by (simp only: linalg_norm_pos [OF nz] if_True mx sum.case Let_def root)
  then have r: "SquaredL1Norm_prox_root root_of arr tau =
        Inr (map (\<lambda>v. max 0 (\<bar>v\<bar> - 2 * tau / s) * sgn v) arr)"
    by (simp only: shrink_eq_soft_threshold [OF tau s])
  have "2 * tau * sum_list (map (\<lambda>v. max (\<bar>v\<bar> - 2 * tau / s) 0) arr) = 2 * tau / s"
    unfolding s_def using tau mu exact by (rule root_threshold_fixed)
  moreover have "2 * tau * sum_list (map (\<lambda>v. max (\<bar>v\<bar> - t) 0) arr) = t"
    unfolding t_def using nz tau by (rule sort_threshold_fixed)
  ultimately have tt: "2 * tau / s = t"
    using fixed_threshold_unique [OF tau] by blast
  have q: "SquaredL1Norm_prox_sort arr tau = Inr (fmax_fabs_sign t arr)"
    unfolding t_def using nz tau by (rule prox_sort_eq)
  from r q tt show ?thesis by (simp add: fmax_fabs_sign_def)
qed

lemma exact_root_agreement_example:
  "(- 2 :: real) \<noteq> 0 \<and> (0 :: real) < 1 \<and>
   brentq (\<lambda>f a b. 1) (prox_root_func [- 2, 3] 1) (1 / 10 ^ 12) (9 / 4) = Inr 1 \<and>
   prox_root_func [- 2, 3] 1 1 = 0 \<and> (1 :: real) / 10 ^ 12 \<le> 1 \<and>
   SquaredL1Norm_prox_root (\<lambda>f a b. 1) [- 2, 3] 1 = SquaredL1Norm_prox_sort [- 2, 3] 1 \<and>
   SquaredL1Norm_prox_sort [- 2, 3] 1 = Inr [0, 1]"
proof -
  have h0: "(- 2 :: real) \<noteq> 0" by simp
  have h1: "\<exists>v\<in>set [- 2, 3 :: real]. v \<noteq> 0" by simp
  have h2: "(0 :: real) < 1" by simp
  have b: "brentq (\<lambda>f a b. 1) (prox_root_func [- 2, 3] 1) (1 / 10 ^ 12) (9 / 4) = Inr 1"
    unfolding brentq_def root_func_at_mu_min root_func_at_mu_max by simp
  have m: "Max (set (map (\<lambda>v. \<bar>v\<bar>\<^sup>2) [- 2, 3 :: real])) / (4 * 1) = 9 / 4" by simp
  have h3: "brentq (\<lambda>f a b. 1) (prox_root_func [- 2, 3] 1) (1 / 10 ^ 12)
              (Max (set (map (\<lambda>v. \<bar>v\<bar>\<^sup>2) [- 2, 3 :: real])) / (4 * 1)) = Inr 1"
    unfolding m by (rule b)
  have h5: "(1 :: real) / 10 ^ 12 \<le> 1" by simp
  from exact_root_agreement [OF h1 h2 h3 root_func_at_root h5]
  have e: "SquaredL1Norm_prox_root (\<lambda>f a b. 1) [- 2, 3] 1 = SquaredL1Norm_prox_sort [- 2, 3] 1"
    by blast
  from h0 h2 b root_func_at_root h5 e prox_sort_m2_3 show ?thesis by blast
qed


lemma sqrt_tiny_mu_max: "sqrt (1 / (\<bar>1 / 10 ^ 9\<bar>\<^sup>2 / (4 * 1))) = 2 * 10 ^ 9"
  by (rule real_sqrt_unique) (simp_all add: power2_eq_square)

lemma tiny_norm_pos: "0 < linalg_norm [1 / 10 ^ 9]"
  by (simp add: linalg_norm_def)

lemma sqrt_tiny_root: "sqrt (1 / (1 / (9 * 10 ^ 18))) = 3 * 10 ^ 9"
  by (rule real_sqrt_unique) (simp_all add: power2_eq_square)

text \<open>
  Claim C2. For every input \<open>x\<close> and every \<open>tau > 0\<close> the sort-based and the root-based
  prox of \<^verbatim>\<open>SquaredL1Norm\<close> are to return the same result. For \<open>x = [1e-9]\<close> and
  \<open>tau = 1\<close> the sort-based prox returns \<open>[1e-9/3]\<close>. The auxiliary function of the
  root-based prox has its root at \<open>\<mu> = 1/(9e18)\<close>, below the lower end \<open>1e-12\<close> that the
  code fixes for the bracket; the function is \<open>-1\<close> at both ends of the bracket
  \<open>[1e-12, max(|x|\<^sup>2)/(4\<tau>)]\<close>, and the root-based prox raises whatever the root finder
  would return.
\<close>

theorem prox_root_raises_on_tiny_input:
  "(\<forall>root_of. SquaredL1Norm_prox_root root_of [1 / 10 ^ 9] 1 = Inl BrentqSignError) \<and>
   SquaredL1Norm_prox_sort [1 / 10 ^ 9] 1 = Inr [1 / (3 * 10 ^ 9)] \<and>
   prox_root_func [1 / 10 ^ 9] 1 (1 / (9 * 10 ^ 18)) = 0 \<and>
   (1 :: real) / (9 * 10 ^ 18) < 1 / 10 ^ 12"
proof -
  have a: "prox_root_func [1 / 10 ^ 9] 1 (1 / 10 ^ 12) = - 1"
    unfolding prox_root_func_def sqrt_inv_mu_min by simp
  have b: "prox_root_func [1 / 10 ^ 9] 1 (\<bar>1 / 10 ^ 9\<bar>\<^sup>2 / (4 * 1)) = - 1"
    unfolding prox_root_func_def sqrt_tiny_mu_max by simp
  have "brentq root_of (prox_root_func [1 / 10 ^ 9] 1) (1 / 10 ^ 12)
          (\<bar>1 / 10 ^ 9\<bar>\<^sup>2 / (4 * 1)) = Inl BrentqSignError" for root_of
    unfolding brentq_def a b by simp
  then have r: "SquaredL1Norm_prox_root root_of [1 / 10 ^ 9] 1 = Inl BrentqSignError" for root_of
    unfolding SquaredL1Norm_prox_root_def
    by (simp only: tiny_norm_pos if_True list.map xp_max.simps fold.simps id_apply sum.case Let_def)
  have q: "SquaredL1Norm_prox_sort [1 / 10 ^ 9] 1 = Inr [1 / (3 * 10 ^ 9)]"
    by (simp add: SquaredL1Norm_prox_sort_def sorted_desc_def cumsum_def test_array_def
        nonzero_gt0_def fmax_fabs_sign_def)
  have c: "prox_root_func [1 / 10 ^ 9] 1 (1 / (9 * 10 ^ 18)) = 0"
    unfolding prox_root_func_def sqrt_tiny_root by simp
  have d: "(1 :: real) / (9 * 10 ^ 18) < 1 / 10 ^ 12" by simp
  from r q c d show ?thesis by blast
qed

end
